theory Spec2Isabelle
  imports Main
begin

section \<open>The todos event stream of collab-todo (todosStream)\<close>

text \<open>
  The handler \<^verbatim>\<open>todosStream(req, res)\<close> authenticates a request, opens a
  server-sent-event response, subscribes to two Firestore queries, and pushes a
  \<^verbatim>\<open>todos_changed\<close> event 250 ms after the last change delivery. The embedding below
  follows the handler line by line. The mutable closure variables (\<^verbatim>\<open>started\<close>,
  \<^verbatim>\<open>debounce\<close>, \<^verbatim>\<open>keepAlive\<close>), the Express response and the timer table of the
  Node event loop are fields of one record that every operation takes and returns.
\<close>

subsection \<open>Data\<close>

text \<open>\<^verbatim>\<open>req.query.token\<close> is a string, or something else (an array or a nested object).\<close>

datatype query_value = QString string | QOther

text \<open>
  What the handler reads from the request: \<^verbatim>\<open>req.query.token\<close>, the result of
  \<^verbatim>\<open>readSessionCookie(req)\<close> (imported from \<^verbatim>\<open>../session.js\<close>; its result is taken
  as given) and \<^verbatim>\<open>req.header("origin")\<close>.
\<close>

record request =
  query_token :: "query_value option"
  session_cookie :: "string option"
  origin_header :: "string option"

text \<open>
  Firebase Auth is an external collaborator. Each verification either rejects, for one
  of several reasons, or resolves to a decoded token, of which only \<^verbatim>\<open>uid\<close> is read.
\<close>

datatype auth_failure = TokenExpired | TokenMalformed | TokenRevoked

record verifier =
  verifyIdToken :: "string \<Rightarrow> auth_failure + string"
  verifySessionCookie :: "string \<Rightarrow> auth_failure + string"

datatype json = JBool bool | JNum nat | JString string | JObject "(string \<times> json) list"

text \<open>
  The three shapes of chunk passed to \<^verbatim>\<open>res.write\<close>: the line \<^verbatim>\<open>event: <name>\<close>, the line
  \<^verbatim>\<open>data: <json>\<close> followed by a blank line, and the comment \<^verbatim>\<open>: keep-alive <ms>\<close>.
\<close>

datatype chunk = EventLine string | DataLine json | CommentLine nat

text \<open>The two closures handed to \<^verbatim>\<open>setTimeout\<close> and \<^verbatim>\<open>setInterval\<close>.\<close>

datatype callback = DebounceFire | KeepAliveTick

text \<open>
  An armed timer of the event loop: its handle, the clock value at which it is due, its
  callback, and its period when it was armed by \<^verbatim>\<open>setInterval\<close>.
\<close>

record timer =
  tid :: nat
  due :: nat
  cb :: callback
  every :: "nat option"

datatype sub_state = NoSub | Listening string | Cancelled

record session =
  status :: nat
  headers :: "string \<Rightarrow> string option"
  headers_flushed :: bool
  json_body :: "json option"
  writes :: "(chunk \<times> bool) list"
  ended :: bool
  peer_gone :: bool
  started :: bool
  debounce :: "nat option"
  keepAlive :: "nat option"
  timers :: "timer list"
  next_id :: nat
  subOwned :: sub_state
  subAssigned :: sub_state
  close_handler :: bool

text \<open>The response object as Express hands it to the handler.\<close>

definition fresh :: session where
  "fresh = \<lparr> status = 200, headers = (\<lambda>_. None), headers_flushed = False, json_body = None,
     writes = [], ended = False, peer_gone = False, started = False, debounce = None,
     keepAlive = None, timers = [], next_id = 0, subOwned = NoSub, subAssigned = NoSub,
     close_handler = False \<rparr>"

subsection \<open>The response\<close>

definition res_status :: "nat \<Rightarrow> session \<Rightarrow> session" where
  "res_status code s = s\<lparr>status := code\<rparr>"

definition res_json :: "json \<Rightarrow> session \<Rightarrow> session" where
  "res_json body s = s\<lparr>json_body := Some body, ended := True\<rparr>"

definition setHeader :: "string \<Rightarrow> string \<Rightarrow> session \<Rightarrow> session" where
  "setHeader name v s = s\<lparr>headers := (headers s)(name := Some v)\<rparr>"

definition flushHeaders :: "session \<Rightarrow> session" where
  "flushHeaders s = s\<lparr>headers_flushed := True\<rparr>"

text \<open>
  \<^verbatim>\<open>res.write\<close> does not throw when the client is gone: it reports the failure in its
  result and through the stream's error event. Every call is logged with its outcome;
  a write fails once the peer is gone or the response has ended.
\<close>

definition res_write :: "chunk \<Rightarrow> session \<Rightarrow> session" where
  "res_write c s = s\<lparr>writes := writes s @ [(c, \<not> peer_gone s \<and> \<not> ended s)]\<rparr>"

definition res_end :: "session \<Rightarrow> session" where
  "res_end s = s\<lparr>ended := True\<rparr>"

subsection \<open>The timers of the event loop\<close>

definition setTimeout :: "callback \<Rightarrow> nat \<Rightarrow> nat \<Rightarrow> session \<Rightarrow> nat \<times> session" where
  "setTimeout f ms now s =
     (next_id s,
      s\<lparr>timers := timers s @ [\<lparr>tid = next_id s, due = now + ms, cb = f, every = None\<rparr>],
        next_id := Suc (next_id s)\<rparr>)"

definition setInterval :: "callback \<Rightarrow> nat \<Rightarrow> nat \<Rightarrow> session \<Rightarrow> nat \<times> session" where
  "setInterval f ms now s =
     (next_id s,
      s\<lparr>timers := timers s @ [\<lparr>tid = next_id s, due = now + ms, cb = f, every = Some ms\<rparr>],
        next_id := Suc (next_id s)\<rparr>)"

text \<open>Clearing a handle that is no longer armed changes nothing.\<close>

definition clearTimeout :: "nat \<Rightarrow> session \<Rightarrow> session" where
  "clearTimeout h s = s\<lparr>timers := filter (\<lambda>tm. tid tm \<noteq> h) (timers s)\<rparr>"

definition clearInterval :: "nat \<Rightarrow> session \<Rightarrow> session" where
  "clearInterval h s = s\<lparr>timers := filter (\<lambda>tm. tid tm \<noteq> h) (timers s)\<rparr>"

subsection \<open>The closures of todosStream\<close>

definition send :: "string \<Rightarrow> json \<Rightarrow> session \<Rightarrow> session" where
  "send event data s = res_write (DataLine data) (res_write (EventLine event) s)"

definition sendComment :: "nat \<Rightarrow> session \<Rightarrow> session" where
  "sendComment now s = res_write (CommentLine now) s"

text \<open>The arrow function of line 56: it sends, whatever \<^verbatim>\<open>started\<close> is.\<close>

definition debounce_fire :: "nat \<Rightarrow> session \<Rightarrow> session" where
  "debounce_fire now s = send ''todos_changed'' (JObject [(''at'', JNum now)]) s"

definition scheduleEmit :: "nat \<Rightarrow> session \<Rightarrow> session" where
  "scheduleEmit now s =
     (if \<not> started s then s
      else
        let s1 = (case debounce s of None \<Rightarrow> s | Some h \<Rightarrow> clearTimeout h s);
            (h', s2) = setTimeout DebounceFire 250 now s1
        in s2\<lparr>debounce := Some h'\<rparr>)"

text \<open>
  The four callbacks given to \<^verbatim>\<open>onSnapshot\<close> (next and error, for each query) have the
  same body.
\<close>

definition onSnapshot_cb :: "nat \<Rightarrow> session \<Rightarrow> session" where
  "onSnapshot_cb now s = (if \<not> started s then s else scheduleEmit now s)"

definition keepAlive_tick :: "nat \<Rightarrow> session \<Rightarrow> session" where
  "keepAlive_tick now s = (if \<not> started s then s else sendComment now s)"

text \<open>
  The two functions returned by \<^verbatim>\<open>onSnapshot\<close>. Cancelling a subscription that is
  already cancelled changes nothing.
\<close>

definition unsubOwned :: "session \<Rightarrow> session" where
  "unsubOwned s = s\<lparr>subOwned := Cancelled\<rparr>"

definition unsubAssigned :: "session \<Rightarrow> session" where
  "unsubAssigned s = s\<lparr>subAssigned := Cancelled\<rparr>"

text \<open>The listener of \<^verbatim>\<open>req.on("close")\<close>, lines 91 to 98.\<close>

definition teardown :: "session \<Rightarrow> session" where
  "teardown s =
     (let s1 = s\<lparr>started := False\<rparr>;
          s2 = (case debounce s1 of None \<Rightarrow> s1 | Some h \<Rightarrow> clearTimeout h s1);
          s3 = (case keepAlive s2 of None \<Rightarrow> s2 | Some h \<Rightarrow> clearInterval h s2)
      in res_end (unsubAssigned (unsubOwned s3)))"

subsection \<open>The handler\<close>

text \<open>JavaScript truthiness of a \<^verbatim>\<open>string | null\<close>: null and the empty string are falsy.\<close>

definition truthy :: "string option \<Rightarrow> bool" where
  "truthy v = (case v of None \<Rightarrow> False | Some x \<Rightarrow> x \<noteq> [])"

definition tokenParam :: "request \<Rightarrow> string option" where
  "tokenParam req = (case query_token req of Some (QString t) \<Rightarrow> Some t | _ \<Rightarrow> None)"

text \<open>The cast \<^verbatim>\<open>sessionCookie as string\<close>; it is only reached with a truthy value.\<close>

definition as_string :: "string option \<Rightarrow> string" where
  "as_string v = (case v of None \<Rightarrow> [] | Some x \<Rightarrow> x)"

definition allowed_origin :: "string option \<Rightarrow> bool" where
  "allowed_origin origin =
     (origin = Some ''https://collab-todo-66eb2.web.app'' \<or>
      origin = Some ''https://collab-todo-66eb2.firebaseapp.com'')"

text \<open>Lines 23 to 81: the headers, the closure variables and the two subscriptions.\<close>

definition open_stream :: "request \<Rightarrow> string \<Rightarrow> session \<Rightarrow> session" where
  "open_stream req uid res =
     (let origin = origin_header req;
          r1 = (if allowed_origin origin
                then setHeader ''Vary'' ''Origin''
                       (setHeader ''Access-Control-Allow-Origin'' (as_string origin) res)
                else res);
          r2 = res_status 200 r1;
          r3 = setHeader ''Content-Type'' ''text/event-stream'' r2;
          r4 = setHeader ''Cache-Control'' ''no-cache, no-transform'' r3;
          r5 = setHeader ''Connection'' ''keep-alive'' r4;
          r6 = setHeader ''X-Accel-Buffering'' ''no'' r5;
          r7 = flushHeaders r6;
          r8 = r7\<lparr>started := False, debounce := None, keepAlive := None\<rparr>
      in r8\<lparr>subOwned := Listening uid, subAssigned := Listening uid\<rparr>)"

text \<open>Lines 83 to 98: the session becomes active.\<close>

definition activate :: "nat \<Rightarrow> session \<Rightarrow> session" where
  "activate now s =
     (let s1 = s\<lparr>started := True\<rparr>;
          s2 = send ''ready'' (JObject [(''ok'', JBool True)]) s1;
          (h, s3) = setInterval KeepAliveTick 25000 now s2
      in s3\<lparr>keepAlive := Some h, close_handler := True\<rparr>)"

text \<open>
  A rejected verification is an exception caught by the \<^verbatim>\<open>catch\<close> of line 99, which
  does not look at what was thrown.
\<close>

definition todosStream :: "verifier \<Rightarrow> nat \<Rightarrow> request \<Rightarrow> session \<Rightarrow> session" where
  "todosStream auth now req res =
     (let tokenParam = tokenParam req;
          sessionCookie = session_cookie req
      in if \<not> truthy tokenParam \<and> \<not> truthy sessionCookie
         then res_json (JObject [(''error'', JString ''Missing session'')]) (res_status 401 res)
         else
           (case (if truthy tokenParam then verifyIdToken auth (as_string tokenParam)
                  else verifySessionCookie auth (as_string sessionCookie)) of
              Inl thrown \<Rightarrow>
                res_json (JObject [(''error'', JString ''Invalid or expired token'')])
                  (res_status 401 res)
            | Inr uid \<Rightarrow> activate now (open_stream req uid res)))"

subsection \<open>The event loop\<close>

text \<open>
  The earliest timer of the table, the first armed among those due at the same time.
\<close>

fun earliest :: "timer list \<Rightarrow> timer option" where
  "earliest [] = None"
| "earliest (x # xs) =
     (case earliest xs of
        None \<Rightarrow> Some x
      | Some y \<Rightarrow> if due x \<le> due y then Some x else Some y)"

definition next_due :: "nat \<Rightarrow> timer list \<Rightarrow> timer option" where
  "next_due T tms =
     (case earliest tms of
        None \<Rightarrow> None
      | Some tm \<Rightarrow> if due tm \<le> T then Some tm else None)"

definition run_callback :: "callback \<Rightarrow> nat \<Rightarrow> session \<Rightarrow> session" where
  "run_callback f now s =
     (case f of DebounceFire \<Rightarrow> debounce_fire now s | KeepAliveTick \<Rightarrow> keepAlive_tick now s)"

text \<open>
  The loop arms and fires timers by its own clock; \<^verbatim>\<open>Date.now()\<close> is the wall clock, which
  the two timer callbacks read when they run. The reading that the callback of a timer due
  at \<open>d\<close> gets is \<open>clk d\<close>; nothing is assumed of \<open>clk\<close>. A timeout that fires
  leaves the table; an interval is armed again one period later (Node raises a period
  below 1 ms to 1 ms).
\<close>

definition fire :: "(nat \<Rightarrow> nat) \<Rightarrow> timer \<Rightarrow> session \<Rightarrow> session" where
  "fire clk tm s =
     run_callback (cb tm) (clk (due tm))
       (s\<lparr>timers :=
            (case every tm of
               None \<Rightarrow> filter (\<lambda>x. tid x \<noteq> tid tm) (timers s)
             | Some p \<Rightarrow>
                 map (\<lambda>x. if tid x = tid tm then x\<lparr>due := due x + Suc (p - 1)\<rparr> else x)
                   (timers s))\<rparr>)"

lemma earliest_mem: "earliest xs = Some tm \<Longrightarrow> tm \<in> set xs"
  by (induction xs arbitrary: tm) (auto split: option.splits if_splits)

lemma next_due_Some: "next_due T xs = Some tm \<Longrightarrow> tm \<in> set xs \<and> due tm \<le> T"
  by (auto simp: next_due_def earliest_mem split: option.splits if_splits)

lemma timers_run_callback [simp]: "timers (run_callback f now s) = timers s"
  by (cases f)
     (simp_all add: run_callback_def debounce_fire_def keepAlive_tick_def send_def
        sendComment_def res_write_def)

lemma sum_filter_less:
  "tm \<in> set xs \<Longrightarrow> due tm \<le> T \<Longrightarrow>
   sum_list (map (\<lambda>x. Suc T - due x) (filter (\<lambda>x. tid x \<noteq> tid tm) xs))
     < sum_list (map (\<lambda>x. Suc T - due x) xs)"
proof (induction xs)
  case Nil
  then show ?case by simp
next
  case (Cons a xs)
  have le: "sum_list (map (\<lambda>x. Suc T - due x) (filter (\<lambda>x. tid x \<noteq> tid tm) xs))
              \<le> sum_list (map (\<lambda>x. Suc T - due x) xs)"
    by (induction xs) auto
  show ?case
  proof (cases "a = tm")
    case True
    with Cons.prems le show ?thesis by simp
  next
    case False
    with Cons show ?thesis by auto
  qed
qed

lemma sum_rearm_less:
  "tm \<in> set xs \<Longrightarrow> due tm \<le> T \<Longrightarrow>
   sum_list (map (\<lambda>x. Suc T - due x)
      (map (\<lambda>x. if tid x = tid tm then x\<lparr>due := due x + Suc p\<rparr> else x) xs))
     < sum_list (map (\<lambda>x. Suc T - due x) xs)"
proof (induction xs)
  case Nil
  then show ?case by simp
next
  case (Cons a xs)
  have le: "sum_list (map (\<lambda>x. Suc T - due x)
      (map (\<lambda>x. if tid x = tid tm then x\<lparr>due := due x + Suc p\<rparr> else x) xs))
              \<le> sum_list (map (\<lambda>x. Suc T - due x) xs)"
    by (induction xs) auto
  show ?case
  proof (cases "a = tm")
    case True
    with Cons.prems le show ?thesis by simp
  next
    case False
    with Cons show ?thesis by auto
  qed
qed

text \<open>
  The event loop up to the value \<open>T\<close> of its clock: as long as a timer is due, the
  earliest one fires. Every firing lowers the total time by which the armed timers are overdue.
\<close>

function run_timers :: "(nat \<Rightarrow> nat) \<Rightarrow> nat \<Rightarrow> session \<Rightarrow> session" where
  "run_timers clk T s =
     (case next_due T (timers s) of
        None \<Rightarrow> s
      | Some tm \<Rightarrow> run_timers clk T (fire clk tm s))"
  by pat_completeness auto
termination
proof (relation "measure (\<lambda>(clk, T, s). sum_list (map (\<lambda>x. Suc T - due x) (timers s)))")
  show "wf (measure (\<lambda>(clk, T, s). sum_list (map (\<lambda>x. Suc T - due x) (timers s))))"
    by simp
next
  fix clk :: "nat \<Rightarrow> nat" and T :: nat and s :: session and tm :: timer
  assume "next_due T (timers s) = Some tm"
  then have mem: "tm \<in> set (timers s)" and le: "due tm \<le> T"
    using next_due_Some by blast+
  show "((clk, T, fire clk tm s), (clk, T, s))
          \<in> measure (\<lambda>(clk, T, s). sum_list (map (\<lambda>x. Suc T - due x) (timers s)))"
    using sum_filter_less [OF mem le] sum_rearm_less [OF mem le]
    by (simp add: fire_def split: option.splits)
qed

declare run_timers.simps [simp del]

text \<open>
  What reaches the session from outside: a delivery from one of the two queries (a
  snapshot or a listen error), the close of the request, and the loss of the peer, after
  which writes fail.
\<close>

datatype watch = OwnedWatch | AssignedWatch

datatype delivery = Snapshot | ListenError

datatype event = Deliver watch delivery | Close | PeerGone

fun handle :: "nat \<Rightarrow> event \<Rightarrow> session \<Rightarrow> session" where
  "handle now (Deliver w d) s = onSnapshot_cb now s"
| "handle now Close s = (if close_handler s then teardown s else s)"
| "handle now PeerGone s = s\<lparr>peer_gone := True\<rparr>"

text \<open>
  A run is a list of events, each with the value of the loop's clock at which it is
  handled; the timers due by then fire first.
\<close>

fun exec :: "(nat \<Rightarrow> nat) \<Rightarrow> (nat \<times> event) list \<Rightarrow> session \<Rightarrow> session" where
  "exec clk [] s = s"
| "exec clk ((t, e) # evs) s = exec clk evs (handle t e (run_timers clk t s))"

subsection \<open>Notions used to state the properties\<close>

text \<open>
  A session is quiet when it is not active and no debounce timer is armed: this holds
  before activation, after a rejected request and after teardown.
\<close>

definition quiet :: "session \<Rightarrow> bool" where
  "quiet s = (\<not> started s \<and> (\<forall>tm\<in>set (timers s). cb tm \<noteq> DebounceFire))"

text \<open>
  The invariant of every run of the handler: timer handles are unique and below the next
  fresh handle; an armed debounce timer is a timeout, is the one the variable
  \<^verbatim>\<open>debounce\<close> holds, and exists only while the session is active; \<^verbatim>\<open>debounce\<close> never
  holds the handle of a keep-alive timer; an active session has its close listener.
\<close>

definition inv :: "session \<Rightarrow> bool" where
  "inv s =
     (distinct (map tid (timers s)) \<and>
      (\<forall>tm\<in>set (timers s).
          tid tm < next_id s \<and>
          (cb tm = DebounceFire \<longrightarrow>
             every tm = None \<and> debounce s = Some (tid tm) \<and> started s) \<and>
          (cb tm = KeepAliveTick \<longrightarrow> debounce s \<noteq> Some (tid tm))) \<and>
      (started s \<longrightarrow> close_handler s))"

fun listening :: "sub_state \<Rightarrow> bool" where
  "listening (Listening uid) = True"
| "listening sub = False"

text \<open>
  A session that has not been torn down: active, response open, both subscriptions
  standing, the keep-alive interval armed.
\<close>

definition live :: "session \<Rightarrow> bool" where
  "live s =
     (started s \<and> \<not> ended s \<and> listening (subOwned s) \<and> listening (subAssigned s) \<and>
      (\<exists>tm\<in>set (timers s). keepAlive s = Some (tid tm) \<and> cb tm = KeepAliveTick \<and> every tm \<noteq> None))"

text \<open>The armed debounce timers.\<close>

definition pending :: "session \<Rightarrow> timer list" where
  "pending s = filter (\<lambda>tm. cb tm = DebounceFire) (timers s)"

text \<open>
  The chunks of named events passed to \<^verbatim>\<open>res.write\<close> so far, in order: everything but
  the keep-alive comments.
\<close>

fun is_comment :: "chunk \<Rightarrow> bool" where
  "is_comment (CommentLine t) = True"
| "is_comment c = False"

definition events_written :: "session \<Rightarrow> chunk list" where
  "events_written s = filter (\<lambda>c. \<not> is_comment c) (map fst (writes s))"

text \<open>The two chunks that \<^verbatim>\<open>send("todos_changed", { at })\<close> writes.\<close>

definition changed_frame :: "nat \<Rightarrow> chunk list" where
  "changed_frame at = [EventLine ''todos_changed'', DataLine (JObject [(''at'', JNum at)])]"

fun is_delivery :: "event \<Rightarrow> bool" where
  "is_delivery (Deliver w d) = True"
| "is_delivery e = False"

text \<open>
  Delivery times that stay within the debounce window: each one comes no earlier than the
  one before it and less than 250 ms after it, so the timer armed by the earlier
  delivery has not fired yet.
\<close>

fun within_window :: "nat \<Rightarrow> nat list \<Rightarrow> bool" where
  "within_window prev [] = True"
| "within_window prev (t # ts) = (prev \<le> t \<and> t < prev + 250 \<and> within_window t ts)"

text \<open>
  Three wall clocks: one read exactly when a timer is due, one read a millisecond later,
  one read a millisecond earlier.
\<close>

definition on_time :: "nat \<Rightarrow> nat" where
  "on_time d = d"

definition one_late :: "nat \<Rightarrow> nat" where
  "one_late d = d + 1"

definition one_early :: "nat \<Rightarrow> nat" where
  "one_early d = d - 1"

text \<open>Concrete collaborators and requests, for evaluating the handler.\<close>

definition accepting :: verifier where
  "accepting = \<lparr>verifyIdToken = (\<lambda>t. Inr ''alice''), verifySessionCookie = (\<lambda>c. Inr ''alice'')\<rparr>"

definition rejecting :: verifier where
  "rejecting =
     \<lparr>verifyIdToken = (\<lambda>t. Inl TokenExpired), verifySessionCookie = (\<lambda>c. Inl TokenRevoked)\<rparr>"

definition cookie_only :: verifier where
  "cookie_only =
     \<lparr>verifyIdToken = (\<lambda>t. Inl TokenMalformed), verifySessionCookie = (\<lambda>c. Inr ''alice'')\<rparr>"

definition cookie_request :: request where
  "cookie_request = \<lparr>query_token = None, session_cookie = Some ''c1'', origin_header = None\<rparr>"

definition token_request :: request where
  "token_request =
     \<lparr>query_token = Some (QString ''abc''), session_cookie = Some ''c1'',
      origin_header = Some ''https://collab-todo-66eb2.web.app''\<rparr>"

definition empty_token_request :: request where
  "empty_token_request =
     \<lparr>query_token = Some (QString []), session_cookie = Some ''c1'', origin_header = None\<rparr>"

definition repeated_token_request :: request where
  "repeated_token_request =
     \<lparr>query_token = Some QOther, session_cookie = Some ''c1'', origin_header = None\<rparr>"

definition bare_request :: request where
  "bare_request = \<lparr>query_token = None, session_cookie = None, origin_header = None\<rparr>"

section \<open>Auxiliary lemmas\<close>

lemmas op_defs = res_write_def send_def sendComment_def debounce_fire_def keepAlive_tick_def
  clearTimeout_def clearInterval_def setTimeout_def setInterval_def scheduleEmit_def
  onSnapshot_cb_def unsubOwned_def unsubAssigned_def res_end_def teardown_def
  run_callback_def

lemma run_timers_None: "next_due T (timers s) = None \<Longrightarrow> run_timers clk T s = s"
  by (simp add: run_timers.simps)

lemma run_timers_Some:
  "next_due T (timers s) = Some tm \<Longrightarrow> run_timers clk T s = run_timers clk T (fire clk tm s)"
  by (simp add: run_timers.simps)

lemma timers_fire:
  "timers (fire clk tm s) =
     (case every tm of
        None \<Rightarrow> filter (\<lambda>x. tid x \<noteq> tid tm) (timers s)
      | Some p \<Rightarrow>
          map (\<lambda>x. if tid x = tid tm then x\<lparr>due := due x + Suc (p - 1)\<rparr> else x) (timers s))"
  by (simp add: fire_def)

lemma fire_quiet:
  assumes "quiet s" and "tm \<in> set (timers s)"
  shows "quiet (fire clk tm s) \<and> writes (fire clk tm s) = writes s"
proof -
  from assms have k: "cb tm = KeepAliveTick" and ns: "\<not> started s"
    by (auto simp: quiet_def intro: callback.exhaust)
  have w: "writes (fire clk tm s) = writes s" and st: "started (fire clk tm s) = started s"
    using k ns by (simp_all add: fire_def run_callback_def keepAlive_tick_def)
  have "\<forall>x\<in>set (timers (fire clk tm s)). cb x \<noteq> DebounceFire"
    using assms(1) by (auto simp: timers_fire quiet_def split: option.splits)
  with w st ns show ?thesis by (simp add: quiet_def)
qed

lemma run_timers_quiet:
  "quiet s \<Longrightarrow> quiet (run_timers clk T s) \<and> writes (run_timers clk T s) = writes s"
proof (induction clk T s rule: run_timers.induct)
  case (1 clk T s)
  show ?case
  proof (cases "next_due T (timers s)")
    case None
    with "1.prems" show ?thesis by (simp add: run_timers_None)
  next
    case (Some tm)
    then have "tm \<in> set (timers s)" using next_due_Some by blast
    with "1.prems" have "quiet (fire clk tm s)" and "writes (fire clk tm s) = writes s"
      using fire_quiet by blast+
    with "1.IH" [OF Some] Some show ?thesis by (simp add: run_timers_Some)
  qed
qed

lemma teardown_keeps_quiet: "quiet s \<Longrightarrow> quiet (teardown s) \<and> writes (teardown s) = writes s"
  by (auto simp: quiet_def op_defs Let_def split: option.splits)

lemma handle_quiet: "quiet s \<Longrightarrow> quiet (handle t e s) \<and> writes (handle t e s) = writes s"
proof (cases e)
  case (Deliver w d)
  assume "quiet s"
  with Deliver show ?thesis by (simp add: quiet_def onSnapshot_cb_def)
next
  case Close
  assume "quiet s"
  with Close teardown_keeps_quiet show ?thesis by simp
next
  case PeerGone
  assume "quiet s"
  with PeerGone show ?thesis by (simp add: quiet_def)
qed

lemma exec_quiet: "quiet s \<Longrightarrow> quiet (exec clk evs s) \<and> writes (exec clk evs s) = writes s"
proof (induction evs arbitrary: s)
  case Nil
  then show ?case by simp
next
  case (Cons a evs)
  obtain t e where a: "a = (t, e)" by (cases a)
  from Cons.prems have "quiet (run_timers clk t s)" "writes (run_timers clk t s) = writes s"
    using run_timers_quiet by blast+
  then have "quiet (handle t e (run_timers clk t s))"
      "writes (handle t e (run_timers clk t s)) = writes s"
    using handle_quiet by auto
  with Cons.IH [of "handle t e (run_timers clk t s)"] a show ?case by simp
qed

lemma exec_append: "exec clk (xs @ ys) s = exec clk ys (exec clk xs s)"
  by (induction xs arbitrary: s) auto

lemma fire_fields [simp]:
  "started (fire clk tm s) = started s" "debounce (fire clk tm s) = debounce s"
  "keepAlive (fire clk tm s) = keepAlive s" "next_id (fire clk tm s) = next_id s"
  "close_handler (fire clk tm s) = close_handler s" "ended (fire clk tm s) = ended s"
  "subOwned (fire clk tm s) = subOwned s" "subAssigned (fire clk tm s) = subAssigned s"
  "peer_gone (fire clk tm s) = peer_gone s"
  by (cases "cb tm"; simp add: fire_def op_defs)+

lemma tid_rearm: "tid \<circ> (\<lambda>x. if tid x = h then x\<lparr>due := d x\<rparr> else x) = tid"
  by (auto simp: fun_eq_iff)

lemma inv_fire: "inv s \<Longrightarrow> inv (fire clk tm s)"
  unfolding inv_def
  by (auto simp: timers_fire tid_rearm distinct_map_filter split: option.splits)

lemma inv_run_timers: "inv s \<Longrightarrow> inv (run_timers clk T s)"
proof (induction clk T s rule: run_timers.induct)
  case (1 clk T s)
  show ?case
  proof (cases "next_due T (timers s)")
    case None
    with "1.prems" show ?thesis by (simp add: run_timers_None)
  next
    case (Some tm)
    with "1.IH" [OF Some] "1.prems" show ?thesis
      by (simp add: run_timers_Some inv_fire)
  qed
qed

lemma inv_scheduleEmit: "inv s \<Longrightarrow> inv (scheduleEmit now s)"
  unfolding inv_def
  by (auto simp: scheduleEmit_def clearTimeout_def setTimeout_def Let_def distinct_map_filter
      split: option.splits)

lemma inv_teardown: "inv s \<Longrightarrow> inv (teardown s)"
  unfolding inv_def
  by (auto simp: op_defs Let_def distinct_map_filter split: option.splits)

lemma teardown_quiet: "inv s \<Longrightarrow> quiet (teardown s)"
  unfolding inv_def quiet_def
  by (auto simp: op_defs Let_def split: option.splits)

lemma inv_handle: "inv s \<Longrightarrow> inv (handle t e s)"
proof (cases e)
  case (Deliver w d)
  assume "inv s"
  with Deliver show ?thesis by (simp add: onSnapshot_cb_def inv_scheduleEmit)
next
  case Close
  assume "inv s"
  with Close show ?thesis by (simp add: inv_teardown)
next
  case PeerGone
  assume "inv s"
  with PeerGone show ?thesis by (simp add: inv_def)
qed

lemma inv_exec: "inv s \<Longrightarrow> inv (exec clk evs s)"
proof (induction evs arbitrary: s)
  case Nil
  then show ?case by simp
next
  case (Cons a evs)
  obtain t e where a: "a = (t, e)" by (cases a)
  from Cons.prems have "inv (handle t e (run_timers clk t s))"
    by (simp add: inv_run_timers inv_handle)
  with Cons.IH a show ?case by simp
qed

lemma inv_rejected: "inv (res_json body (res_status code fresh))"
  by (simp add: inv_def res_json_def res_status_def fresh_def)

lemma inv_established: "inv (activate now (open_stream req uid fresh))"
  by (simp add: inv_def activate_def open_stream_def op_defs res_status_def setHeader_def
      flushHeaders_def fresh_def Let_def)

lemma inv_todosStream: "inv (todosStream auth now req fresh)"
  by (simp add: todosStream_def Let_def inv_rejected inv_established split: sum.splits)

lemma not_listening_quiet: "inv s \<Longrightarrow> \<not> close_handler s \<Longrightarrow> quiet s"
  by (auto simp: inv_def quiet_def)

lemma handle_Close_quiet: "inv s \<Longrightarrow> quiet (handle t Close s)"
  by (simp add: teardown_quiet not_listening_quiet)

lemma todosStream_missing:
  "\<not> truthy (tokenParam req) \<Longrightarrow> \<not> truthy (session_cookie req) \<Longrightarrow>
   todosStream auth now req res =
     res_json (JObject [(''error'', JString ''Missing session'')]) (res_status 401 res)"
  by (simp add: todosStream_def)

lemma todosStream_token_rejected:
  "tokenParam req = Some t \<Longrightarrow> t \<noteq> [] \<Longrightarrow> verifyIdToken auth t = Inl e \<Longrightarrow>
   todosStream auth now req res =
     res_json (JObject [(''error'', JString ''Invalid or expired token'')]) (res_status 401 res)"
  by (simp add: todosStream_def truthy_def as_string_def)

lemma todosStream_cookie_rejected:
  "\<not> truthy (tokenParam req) \<Longrightarrow> session_cookie req = Some c \<Longrightarrow> c \<noteq> [] \<Longrightarrow>
   verifySessionCookie auth c = Inl e \<Longrightarrow>
   todosStream auth now req res =
     res_json (JObject [(''error'', JString ''Invalid or expired token'')]) (res_status 401 res)"
  by (simp add: todosStream_def truthy_def as_string_def)

lemma todosStream_token_accepted:
  "tokenParam req = Some t \<Longrightarrow> t \<noteq> [] \<Longrightarrow> verifyIdToken auth t = Inr uid \<Longrightarrow>
   todosStream auth now req res = activate now (open_stream req uid res)"
  by (simp add: todosStream_def truthy_def as_string_def)

lemma todosStream_cookie_accepted:
  "\<not> truthy (tokenParam req) \<Longrightarrow> session_cookie req = Some c \<Longrightarrow> c \<noteq> [] \<Longrightarrow>
   verifySessionCookie auth c = Inr uid \<Longrightarrow>
   todosStream auth now req res = activate now (open_stream req uid res)"
  by (simp add: todosStream_def truthy_def as_string_def)

lemma rejection_fields:
  "r = res_json body (res_status 401 res) \<Longrightarrow>
   status r = 401 \<and> json_body r = Some body \<and> ended r \<and> headers r = headers res \<and>
   headers_flushed r = headers_flushed res \<and> writes r = writes res \<and>
   started r = started res \<and> timers r = timers res \<and> subOwned r = subOwned res \<and>
   subAssigned r = subAssigned res"
  by (simp add: res_json_def res_status_def)

lemma established_cookie:
  "todosStream accepting now cookie_request fresh = activate now (open_stream cookie_request ''alice'' fresh)"
  by (simp add: todosStream_def accepting_def cookie_request_def tokenParam_def truthy_def as_string_def)

lemma debounce_armed_started:
  "inv s \<Longrightarrow> tm \<in> set (timers s) \<Longrightarrow> cb tm = DebounceFire \<Longrightarrow> started s"
  by (auto simp: inv_def)

lemma fire_writes: "\<exists>ws. writes (fire clk tm s) = writes s @ ws"
  by (cases "cb tm") (simp_all add: fire_def op_defs)

lemma run_timers_writes: "\<exists>ws. writes (run_timers clk T s) = writes s @ ws"
proof (induction clk T s rule: run_timers.induct)
  case (1 clk T s)
  show ?case
  proof (cases "next_due T (timers s)")
    case None
    then show ?thesis by (simp add: run_timers_None)
  next
    case (Some tm)
    from "1.IH" [OF Some] obtain ws where
      "writes (run_timers clk T (fire clk tm s)) = writes (fire clk tm s) @ ws" by blast
    moreover obtain ws' where "writes (fire clk tm s) = writes s @ ws'"
      using fire_writes by blast
    ultimately show ?thesis using Some by (simp add: run_timers_Some)
  qed
qed

lemma handle_writes: "\<exists>ws. writes (handle t e s) = writes s @ ws"
  by (cases e) (auto simp: op_defs Let_def split: option.splits prod.splits)

lemma exec_writes: "\<exists>ws. writes (exec clk evs s) = writes s @ ws"
proof (induction evs arbitrary: s)
  case Nil
  then show ?case by simp
next
  case (Cons a evs)
  obtain t e where a: "a = (t, e)" by (cases a)
  obtain w1 where w1: "writes (run_timers clk t s) = writes s @ w1"
    using run_timers_writes by blast
  obtain w2 where w2: "writes (handle t e (run_timers clk t s)) = writes (run_timers clk t s) @ w2"
    using handle_writes by blast
  obtain w3 where "writes (exec clk evs (handle t e (run_timers clk t s)))
      = writes (handle t e (run_timers clk t s)) @ w3"
    using Cons.IH by blast
  with w1 w2 a show ?case by simp
qed

lemma open_stream_quiet: "quiet (open_stream req uid fresh) \<and> writes (open_stream req uid fresh) = []"
  by (simp add: quiet_def open_stream_def fresh_def res_status_def setHeader_def
      flushHeaders_def Let_def)

lemma activate_writes:
  "map fst (writes (activate now s)) =
     map fst (writes s) @ [EventLine ''ready'', DataLine (JObject [(''ok'', JBool True)])]"
  by (simp add: activate_def op_defs Let_def)

lemma earliest_le:
  "tm \<in> set xs \<Longrightarrow> \<exists>y. earliest xs = Some y \<and> due y \<le> due tm"
  by (induction xs) (auto split: option.splits)

lemma next_due_exists:
  "tm \<in> set xs \<Longrightarrow> due tm \<le> T \<Longrightarrow> \<exists>y. next_due T xs = Some y"
  using earliest_le [of tm xs] by (auto simp: next_due_def)

lemma filter_map_same:
  "(\<And>x. x \<in> set xs \<Longrightarrow> P x \<Longrightarrow> f x = x) \<Longrightarrow> (\<And>x. x \<in> set xs \<Longrightarrow> \<not> P x \<Longrightarrow> \<not> P (f x))
   \<Longrightarrow> filter P (map f xs) = filter P xs"
  by (induction xs) auto

lemma fire_keepalive_pending:
  assumes "inv s" and "x \<in> set (timers s)" and "cb x = KeepAliveTick"
  shows "pending (fire clk x s) = pending s"
proof -
  have ne: "tid tm \<noteq> tid x" if "tm \<in> set (timers s)" and "cb tm = DebounceFire" for tm
  proof -
    from assms(1) that have "debounce s = Some (tid tm)" by (simp add: inv_def)
    moreover from assms have "debounce s \<noteq> Some (tid x)" by (simp add: inv_def)
    ultimately show ?thesis by auto
  qed
  show ?thesis
  proof (cases "every x")
    case None
    have "filter (\<lambda>tm. cb tm = DebounceFire) (filter (\<lambda>y. tid y \<noteq> tid x) (timers s))
        = filter (\<lambda>tm. cb tm = DebounceFire) (timers s)"
      using ne by (auto simp: filter_filter intro: filter_cong)
    with None show ?thesis by (simp add: pending_def timers_fire)
  next
    case (Some p)
    have "filter (\<lambda>tm. cb tm = DebounceFire)
            (map (\<lambda>y. if tid y = tid x then y\<lparr>due := due y + Suc (p - 1)\<rparr> else y) (timers s))
        = filter (\<lambda>tm. cb tm = DebounceFire) (timers s)"
      using ne by (intro filter_map_same) auto
    with Some show ?thesis by (simp add: pending_def timers_fire)
  qed
qed

lemma fire_keepalive_events:
  "cb x = KeepAliveTick \<Longrightarrow> events_written (fire clk x s) = events_written s"
  by (simp add: events_written_def fire_def op_defs)

lemma pending_mem: "tm \<in> set (pending s) \<longleftrightarrow> tm \<in> set (timers s) \<and> cb tm = DebounceFire"
  by (auto simp: pending_def)

lemma run_timers_not_due:
  "inv s \<Longrightarrow> \<forall>tm\<in>set (pending s). T < due tm \<Longrightarrow>
   pending (run_timers clk T s) = pending s \<and>
   events_written (run_timers clk T s) = events_written s \<and>
   started (run_timers clk T s) = started s"
proof (induction clk T s rule: run_timers.induct)
  case (1 clk T s)
  show ?case
  proof (cases "next_due T (timers s)")
    case None
    then show ?thesis by (simp add: run_timers_None)
  next
    case (Some x)
    then have x: "x \<in> set (timers s)" "due x \<le> T"
      using next_due_Some by blast+
    have "cb x \<noteq> DebounceFire"
    proof
      assume "cb x = DebounceFire"
      with x(1) have "x \<in> set (pending s)" by (simp add: pending_mem)
      with "1.prems"(2) x(2) show False by fastforce
    qed
    then have k: "cb x = KeepAliveTick" by (cases "cb x") auto
    have p: "pending (fire clk x s) = pending s"
      using fire_keepalive_pending [OF "1.prems"(1) x(1) k] .
    have e: "events_written (fire clk x s) = events_written s"
      using fire_keepalive_events [OF k] .
    have "inv (fire clk x s)" using "1.prems"(1) by (rule inv_fire)
    moreover have "\<forall>tm\<in>set (pending (fire clk x s)). T < due tm"
      using p "1.prems"(2) by simp
    ultimately have "pending (run_timers clk T (fire clk x s)) = pending (fire clk x s) \<and>
       events_written (run_timers clk T (fire clk x s)) = events_written (fire clk x s) \<and>
       started (run_timers clk T (fire clk x s)) = started (fire clk x s)"
      using "1.IH" [OF Some] by blast
    with p e Some show ?thesis by (simp add: run_timers_Some)
  qed
qed

lemma fire_debounce:
  assumes "inv s" and "pending s = [tm]"
  shows "pending (fire clk tm s) = [] \<and>
         events_written (fire clk tm s) = events_written s @ changed_frame (clk (due tm))"
proof -
  have mem: "tm \<in> set (timers s)" and c: "cb tm = DebounceFire"
    using assms(2) pending_mem [of tm s] by auto
  with assms(1) have ev: "every tm = None" by (auto simp: inv_def)
  have "filter (\<lambda>y. tid y \<noteq> tid tm) (pending s) = []"
    using assms(2) by simp
  then have "pending (fire clk tm s) = []"
    using ev by (simp add: pending_def timers_fire filter_filter conj_commute)
  moreover have "events_written (fire clk tm s) = events_written s @ changed_frame (clk (due tm))"
    using c by (simp add: events_written_def fire_def op_defs changed_frame_def)
  ultimately show ?thesis by simp
qed

lemma run_timers_due:
  "inv s \<Longrightarrow> pending s = [tm] \<Longrightarrow> due tm \<le> T \<Longrightarrow>
   pending (run_timers clk T s) = [] \<and>
   events_written (run_timers clk T s) = events_written s @ changed_frame (clk (due tm)) \<and>
   started (run_timers clk T s) = started s"
proof (induction clk T s rule: run_timers.induct)
  case (1 clk T s)
  have mem: "tm \<in> set (timers s)"
    using "1.prems"(2) pending_mem [of tm s] by auto
  then obtain x where Some: "next_due T (timers s) = Some x"
    using next_due_exists "1.prems"(3) by blast
  then have x: "x \<in> set (timers s)" "due x \<le> T"
    using next_due_Some by blast+
  have i: "inv (fire clk x s)" using "1.prems"(1) by (rule inv_fire)
  show ?case
  proof (cases "cb x")
    case KeepAliveTick
    have p: "pending (fire clk x s) = [tm]"
      using fire_keepalive_pending [OF "1.prems"(1) x(1) KeepAliveTick] "1.prems"(2) by simp
    have e: "events_written (fire clk x s) = events_written s"
      using fire_keepalive_events [OF KeepAliveTick] .
    from "1.IH" [OF Some i p "1.prems"(3)] e Some show ?thesis
      by (simp add: run_timers_Some)
  next
    case DebounceFire
    with x(1) "1.prems"(2) have "x = tm"
      using pending_mem [of x s] by simp
    then have f: "pending (fire clk x s) = []"
        "events_written (fire clk x s) = events_written s @ changed_frame (clk (due tm))"
      using fire_debounce [OF "1.prems"(1,2)] by simp_all
    then have "\<forall>y\<in>set (pending (fire clk x s)). T < due y" by simp
    from run_timers_not_due [OF i this] f Some show ?thesis
      by (simp add: run_timers_Some)
  qed
qed

lemma deliver_rearms:
  assumes "inv s" and "started s"
  shows "pending (handle t (Deliver w d) s)
           = [\<lparr>tid = next_id s, due = t + 250, cb = DebounceFire, every = None\<rparr>] \<and>
         events_written (handle t (Deliver w d) s) = events_written s \<and>
         started (handle t (Deliver w d) s)"
proof -
  have old: "filter (\<lambda>tm. cb tm = DebounceFire)
      (case debounce s of None \<Rightarrow> timers s | Some h \<Rightarrow> filter (\<lambda>tm. tid tm \<noteq> h) (timers s)) = []"
    using assms(1) by (auto simp: inv_def filter_empty_conv split: option.splits)
  show ?thesis
    using old assms(2)
    by (cases "debounce s")
       (simp_all add: pending_def events_written_def onSnapshot_cb_def scheduleEmit_def
          clearTimeout_def setTimeout_def Let_def)
qed

lemma burst_rest:
  "inv s \<Longrightarrow> started s \<Longrightarrow> pending s = [tm] \<Longrightarrow> due tm = prev + 250 \<Longrightarrow>
   \<forall>e\<in>set evs. is_delivery (snd e) \<Longrightarrow> within_window prev (map fst evs) \<Longrightarrow>
   (last (prev # map fst evs) + 250 \<le> T \<longrightarrow>
      events_written (run_timers clk T (exec clk evs s))
        = events_written s @ changed_frame (clk (last (prev # map fst evs) + 250))) \<and>
   (T < last (prev # map fst evs) + 250 \<longrightarrow>
      events_written (run_timers clk T (exec clk evs s)) = events_written s)"
proof (induction evs arbitrary: s tm prev)
  case Nil
  have "\<forall>y\<in>set (pending s). T < due y" if "T < prev + 250"
    using that Nil.prems(3,4) by simp
  then show ?case
    using run_timers_due [OF Nil.prems(1,3), of T] run_timers_not_due [OF Nil.prems(1), of T]
      Nil.prems(4)
    by auto
next
  case (Cons a evs)
  obtain t e where a: "a = (t, e)" by (cases a)
  with Cons.prems(5) obtain w d where e: "e = Deliver w d"
    by (cases e) auto
  from Cons.prems(6) a have t: "prev \<le> t" "t < prev + 250" and ww: "within_window t (map fst evs)"
    by simp_all
  define s1 where "s1 = run_timers clk t s"
  define s2 where "s2 = handle t e s1"
  have "\<forall>y\<in>set (pending s). t < due y"
    using Cons.prems(3,4) t by simp
  from run_timers_not_due [OF Cons.prems(1) this]
  have s1: "pending s1 = [tm]" "events_written s1 = events_written s" "started s1"
    using Cons.prems(2,3) by (simp_all add: s1_def)
  have i1: "inv s1" unfolding s1_def using Cons.prems(1) by (rule inv_run_timers)
  from deliver_rearms [OF i1 s1(3), of t w d]
  have s2: "pending s2 = [\<lparr>tid = next_id s1, due = t + 250, cb = DebounceFire, every = None\<rparr>]"
      "events_written s2 = events_written s" "started s2"
    using s1(2) e by (simp_all add: s2_def)
  have i2: "inv s2" unfolding s2_def using i1 by (rule inv_handle)
  have d: "\<forall>x\<in>set evs. is_delivery (snd x)" using Cons.prems(5) by simp
  have "due \<lparr>tid = next_id s1, due = t + 250, cb = DebounceFire, every = None\<rparr> = t + 250"
    by simp
  from Cons.IH [OF i2 s2(3) s2(1) this d ww] s2(2) a
  show ?case by (simp add: s1_def s2_def)
qed

lemma established_fields:
  "started (activate now (open_stream req uid fresh))"
  "timers (activate now (open_stream req uid fresh))
     = [\<lparr>tid = 0, due = now + 25000, cb = KeepAliveTick, every = Some 25000\<rparr>]"
  "map fst (writes (activate now (open_stream req uid fresh)))
     = [EventLine ''ready'', DataLine (JObject [(''ok'', JBool True)])]"
  by (simp_all add: activate_def open_stream_def op_defs res_status_def setHeader_def
      flushHeaders_def fresh_def Let_def)

lemma live_fire:
  assumes "inv s" and "live s" and "x \<in> set (timers s)"
  shows "live (fire clk x s)"
proof -
  from assms(2) obtain k where k: "k \<in> set (timers s)" "keepAlive s = Some (tid k)"
      "cb k = KeepAliveTick" "every k \<noteq> None"
    by (auto simp: live_def)
  have same: "x = k" if "tid x = tid k"
    using that assms(1,3) k(1) by (auto simp: inv_def distinct_map inj_on_def)
  have "\<exists>tm\<in>set (timers (fire clk x s)). tid tm = tid k \<and> cb tm = KeepAliveTick \<and> every tm \<noteq> None"
  proof (cases "every x")
    case None
    with k(4) same have "tid k \<noteq> tid x" by auto
    with k None show ?thesis by (auto simp: timers_fire)
  next
    case (Some p)
    let ?f = "\<lambda>y. if tid y = tid x then y\<lparr>due := due y + Suc (p - 1)\<rparr> else y"
    have "?f k \<in> set (timers (fire clk x s))"
      using k(1) Some by (simp add: timers_fire)
    moreover have "tid (?f k) = tid k \<and> cb (?f k) = KeepAliveTick \<and> every (?f k) \<noteq> None"
      using k by simp
    ultimately show ?thesis by blast
  qed
  then obtain k' where "k' \<in> set (timers (fire clk x s))" "keepAlive (fire clk x s) = Some (tid k')"
      "cb k' = KeepAliveTick" "every k' \<noteq> None"
    using k(2) by auto
  then have "\<exists>tm\<in>set (timers (fire clk x s)).
      keepAlive (fire clk x s) = Some (tid tm) \<and> cb tm = KeepAliveTick \<and> every tm \<noteq> None"
    by blast
  with assms(2) show ?thesis by (simp add: live_def)
qed

lemma live_run_timers: "inv s \<Longrightarrow> live s \<Longrightarrow> live (run_timers clk T s)"
proof (induction clk T s rule: run_timers.induct)
  case (1 clk T s)
  show ?case
  proof (cases "next_due T (timers s)")
    case None
    with "1.prems" show ?thesis by (simp add: run_timers_None)
  next
    case (Some x)
    then have "x \<in> set (timers s)" using next_due_Some by blast
    then have "live (fire clk x s)" using "1.prems" live_fire by blast
    with "1.IH" [OF Some] "1.prems"(1) Some show ?thesis
      by (simp add: run_timers_Some inv_fire)
  qed
qed

lemma live_handle: "inv s \<Longrightarrow> live s \<Longrightarrow> e \<noteq> Close \<Longrightarrow> live (handle t e s)"
proof (cases e)
  case (Deliver w d)
  assume i: "inv s" and l: "live s"
  from l obtain k where k: "k \<in> set (timers s)" "keepAlive s = Some (tid k)"
      "cb k = KeepAliveTick" "every k \<noteq> None"
    by (auto simp: live_def)
  with i have "debounce s \<noteq> Some (tid k)" by (simp add: inv_def)
  then have "k \<in> set (timers (scheduleEmit t s))"
    using k(1) by (auto simp: scheduleEmit_def clearTimeout_def setTimeout_def Let_def
        split: option.splits)
  moreover have "keepAlive (scheduleEmit t s) = keepAlive s" "started (scheduleEmit t s)"
      "ended (scheduleEmit t s) = ended s" "subOwned (scheduleEmit t s) = subOwned s"
      "subAssigned (scheduleEmit t s) = subAssigned s"
    using l by (auto simp: live_def scheduleEmit_def clearTimeout_def setTimeout_def Let_def
        split: option.splits)
  ultimately have "live (scheduleEmit t s)"
    using l k by (auto simp: live_def)
  with l Deliver show ?thesis by (simp add: onSnapshot_cb_def live_def)
next
  case Close
  assume "e \<noteq> Close"
  with Close show ?thesis by simp
next
  case PeerGone
  assume "live s"
  with PeerGone show ?thesis by (simp add: live_def)
qed

lemma live_exec:
  "inv s \<Longrightarrow> live s \<Longrightarrow> \<forall>e\<in>set evs. snd e \<noteq> Close \<Longrightarrow> live (exec clk evs s)"
proof (induction evs arbitrary: s)
  case Nil
  then show ?case by simp
next
  case (Cons a evs)
  obtain t e where a: "a = (t, e)" by (cases a)
  with Cons.prems(3) have ne: "e \<noteq> Close" by auto
  have i1: "inv (run_timers clk t s)" using Cons.prems(1) by (rule inv_run_timers)
  have l1: "live (run_timers clk t s)" using Cons.prems(1,2) by (rule live_run_timers)
  have "inv (handle t e (run_timers clk t s))" using i1 by (rule inv_handle)
  moreover have "live (handle t e (run_timers clk t s))" using i1 l1 ne by (rule live_handle)
  ultimately show ?case using Cons.IH Cons.prems(3) a by simp
qed

lemma started_todosStream:
  "started (todosStream auth now req fresh) \<Longrightarrow>
   \<exists>uid. todosStream auth now req fresh = activate now (open_stream req uid fresh)"
  by (auto simp: todosStream_def Let_def res_json_def res_status_def fresh_def split: sum.splits if_splits)

lemma live_established: "live (activate now (open_stream req uid fresh))"
  by (simp add: live_def activate_def open_stream_def op_defs res_status_def setHeader_def
      flushHeaders_def fresh_def Let_def)

lemma teardown_fields:
  "\<not> started (teardown s)" "ended (teardown s)"
  "subOwned (teardown s) = Cancelled" "subAssigned (teardown s) = Cancelled"
  by (cases "debounce s"; cases "keepAlive s"; simp add: op_defs Let_def)+

lemma headers_established:
  "headers (activate now (open_stream req uid res)) =
     ((if allowed_origin (origin_header req)
       then (headers res)(''Access-Control-Allow-Origin'' := Some (as_string (origin_header req)),
              ''Vary'' := Some ''Origin'')
       else headers res)
      (''Content-Type'' := Some ''text/event-stream'',
       ''Cache-Control'' := Some ''no-cache, no-transform'',
       ''Connection'' := Some ''keep-alive'',
       ''X-Accel-Buffering'' := Some ''no''))"
  by (simp add: activate_def open_stream_def op_defs res_status_def setHeader_def
      flushHeaders_def Let_def)

section \<open>The properties\<close>

subsection \<open>C1: silence after teardown\<close>

text \<open>
  C1. Once the close listener has run, nothing more is passed to \<^verbatim>\<open>res.write\<close>: whatever
  events precede the close and whatever deliveries, timer firings and further events
  follow it, the log of writes after the whole run, and after the event loop has gone on to
  any later time \<open>T\<close>, is the log as it stood when the close was handled, whatever the
  wall clock reads. A debounce
  timeout or a keep-alive interval that was armed at that moment has been cleared from
  the timer table and never fires.
\<close>

theorem post_close_silence:
  "writes (run_timers clk T (exec clk (before @ (t, Close) # after) (todosStream auth now req fresh)))
     = writes (exec clk (before @ [(t, Close)]) (todosStream auth now req fresh))"
proof -
  define s where "s = run_timers clk t (exec clk before (todosStream auth now req fresh))"
  have "inv s"
    unfolding s_def by (simp add: inv_todosStream inv_exec inv_run_timers)
  then have q: "quiet (handle t Close s)"
    by (rule handle_Close_quiet)
  have "writes (run_timers clk T (exec clk after (handle t Close s))) = writes (handle t Close s)"
    using q exec_quiet run_timers_quiet by metis
  then show ?thesis
    by (simp add: exec_append s_def)
qed

text \<open>
  A delivery at 100 arms the debounce timer for 350; the close at 200 clears it; a late
  delivery at 300 and a minute of clock time add nothing to the two chunks of \<^verbatim>\<open>ready\<close>.
\<close>

theorem post_close_silence_witness:
  "map fst (writes (run_timers on_time 60000
      (exec on_time
         ([(100, Deliver OwnedWatch Snapshot)] @ (200, Close) # [(300, Deliver OwnedWatch Snapshot)])
         (todosStream accepting 0 cookie_request fresh))))
     = [EventLine ''ready'', DataLine (JObject [(''ok'', JBool True)])]"
  unfolding post_close_silence [where clk = on_time and T = 60000
      and before = "[(100, Deliver OwnedWatch Snapshot)]" and t = 200
      and after = "[(300, Deliver OwnedWatch Snapshot)]" and auth = accepting and now = 0
      and req = cookie_request]
  unfolding established_cookie
  by (simp add: activate_def open_stream_def op_defs res_status_def
      setHeader_def flushHeaders_def fresh_def Let_def
      cookie_request_def allowed_origin_def run_timers.simps next_due_def fire_def)

subsection \<open>C2: where the active check is made\<close>



text \<open>
  The delivery callbacks and the keep-alive tick return on every session that is not
  active. The event loop itself never runs the debounce callback on such a session: in
  every state a run of the handler reaches, a debounce timer is armed only while
  \<^verbatim>\<open>started\<close> is true, since \<^verbatim>\<open>scheduleEmit\<close> arms it only then and the close listener
  clears it. The silence after a close therefore rests on \<^verbatim>\<open>clearTimeout\<close> alone.
\<close>

lemma inactive_callbacks_return:
  "\<not> started s \<Longrightarrow> onSnapshot_cb now s = s \<and> keepAlive_tick now s = s"
  by (simp add: onSnapshot_cb_def keepAlive_tick_def)

lemma debounce_armed_only_while_active:
  "\<forall>tm\<in>set (timers (run_timers clk T (exec clk evs (todosStream auth t0 req fresh)))).
       cb tm = DebounceFire \<longrightarrow>
       started (run_timers clk T (exec clk evs (todosStream auth t0 req fresh)))"
proof -
  have "inv (run_timers clk T (exec clk evs (todosStream auth t0 req fresh)))"
    by (simp add: inv_todosStream inv_exec inv_run_timers)
  then show ?thesis
    using debounce_armed_started by blast
qed

subsection \<open>C3: one event per burst, a window after its last delivery\<close>

text \<open>
  C3, as stated, fails in the stamp: the event carries what \<^verbatim>\<open>Date.now()\<close> reads when the
  callback runs, which is not the time the timer was due. After deliveries at 1000, 1100
  and 1300 the timer is due at 1550; with a clock read one millisecond later the one event
  is stamped 1551, and with a clock read one millisecond earlier it is stamped 1549.
\<close>

theorem stamp_is_clock_reading:
  "events_written (run_timers one_late 2000
     (exec one_late [(1000, Deliver OwnedWatch Snapshot), (1100, Deliver AssignedWatch Snapshot),
            (1300, Deliver OwnedWatch ListenError)]
        (todosStream accepting 0 cookie_request fresh)))
     = [EventLine ''ready'', DataLine (JObject [(''ok'', JBool True)]),
        EventLine ''todos_changed'', DataLine (JObject [(''at'', JNum 1551)])] \<and>
   events_written (run_timers one_late 2000
     (exec one_late [(1000, Deliver OwnedWatch Snapshot), (1100, Deliver AssignedWatch Snapshot),
            (1300, Deliver OwnedWatch ListenError)]
        (todosStream accepting 0 cookie_request fresh)))
     \<noteq> events_written (todosStream accepting 0 cookie_request fresh)
         @ changed_frame (1300 + 250) \<and>
   events_written (run_timers one_early 2000
     (exec one_early [(1000, Deliver OwnedWatch Snapshot), (1100, Deliver AssignedWatch Snapshot),
            (1300, Deliver OwnedWatch ListenError)]
        (todosStream accepting 0 cookie_request fresh)))
     = [EventLine ''ready'', DataLine (JObject [(''ok'', JBool True)]),
        EventLine ''todos_changed'', DataLine (JObject [(''at'', JNum 1549)])]"
  unfolding established_cookie
  by (simp add: activate_def open_stream_def op_defs res_status_def setHeader_def
      flushHeaders_def fresh_def Let_def
      cookie_request_def allowed_origin_def run_timers.simps next_due_def fire_def
      events_written_def changed_frame_def one_late_def one_early_def)

text \<open>
  C3, amended. Take any active session in a state that satisfies the invariant, as every
  state reached by a run of the handler does (\<open>inv_todosStream\<close>, \<open>inv_exec\<close>,
  \<open>inv_run_timers\<close>), whether or not it has emitted before, with no emission due by the
  first delivery; and a burst of one or more deliveries (from either query, snapshots or
  errors) in which each delivery comes less than 250 ms after the one before. Then once
  the loop's clock has reached the time of the last delivery plus 250, the session has
  written exactly one \<^verbatim>\<open>todos_changed\<close> event beyond what it had written before, and at
  any earlier time it has written none: each delivery cancels the timer and arms it again
  for the full window. The event is stamped with the reading of \<^verbatim>\<open>Date.now()\<close> in the
  callback of the timer due at the last delivery time plus 250.
\<close>

theorem debounce_coalescing:
  assumes "inv s"
    and "started s"
    and "\<forall>tm\<in>set (timers s). cb tm = DebounceFire \<longrightarrow> t1 < due tm"
    and "\<forall>e\<in>set ((t1, e1) # burst). is_delivery (snd e)"
    and "within_window t1 (map fst burst)"
  shows "(last (t1 # map fst burst) + 250 \<le> T \<longrightarrow>
           events_written (run_timers clk T (exec clk ((t1, e1) # burst) s))
             = events_written s @ changed_frame (clk (last (t1 # map fst burst) + 250))) \<and>
         (T < last (t1 # map fst burst) + 250 \<longrightarrow>
           events_written (run_timers clk T (exec clk ((t1, e1) # burst) s)) = events_written s)"
proof -
  note i = assms(1)
  from assms(4) obtain w d where e: "e1 = Deliver w d" by (cases e1) auto
  define s1 where "s1 = run_timers clk t1 s"
  define s2 where "s2 = handle t1 e1 s1"
  have "\<forall>y\<in>set (pending s). t1 < due y"
    using assms(3) by (simp add: pending_mem)
  from run_timers_not_due [OF i this]
  have s1: "events_written s1 = events_written s" "started s1"
    using assms(2) by (simp_all add: s1_def)
  have i1: "inv s1" unfolding s1_def using i by (rule inv_run_timers)
  from deliver_rearms [OF i1 s1(2), of t1 w d]
  have s2: "pending s2 = [\<lparr>tid = next_id s1, due = t1 + 250, cb = DebounceFire, every = None\<rparr>]"
      "events_written s2 = events_written s" "started s2"
    using s1(1) e by (simp_all add: s2_def)
  have i2: "inv s2" unfolding s2_def using i1 by (rule inv_handle)
  have d: "\<forall>x\<in>set burst. is_delivery (snd x)" using assms(4) by simp
  have "due \<lparr>tid = next_id s1, due = t1 + 250, cb = DebounceFire, every = None\<rparr> = t1 + 250"
    by simp
  from burst_rest [OF i2 s2(3) s2(1) this d assms(5), where T = T and clk = clk] s2(2)
  show ?thesis by (simp add: s1_def s2_def)
qed

text \<open>
  A session that has already emitted once, for a delivery at 1000, and is idle at 3000:
  deliveries at 5000 and 5100 give one more event, written once the loop's clock has
  reached 5350.
\<close>

theorem debounce_coalescing_witness:
  "started (run_timers on_time 3000 (exec on_time [(1000, Deliver OwnedWatch Snapshot)]
      (todosStream accepting 0 cookie_request fresh))) \<and>
   within_window 5000 [5100] \<and>
   events_written (run_timers on_time 6000
     (exec on_time [(5000, Deliver AssignedWatch Snapshot), (5100, Deliver OwnedWatch ListenError)]
        (run_timers on_time 3000 (exec on_time [(1000, Deliver OwnedWatch Snapshot)]
           (todosStream accepting 0 cookie_request fresh)))))
     = [EventLine ''ready'', DataLine (JObject [(''ok'', JBool True)]),
        EventLine ''todos_changed'', DataLine (JObject [(''at'', JNum 1250)]),
        EventLine ''todos_changed'', DataLine (JObject [(''at'', JNum 5350)])]"
proof -
  let ?s = "run_timers on_time 3000 (exec on_time [(1000, Deliver OwnedWatch Snapshot)]
      (todosStream accepting 0 cookie_request fresh))"
  have i: "inv ?s"
    by (intro inv_run_timers inv_exec inv_todosStream)
  have st: "started ?s"
    and tms: "timers ?s = [\<lparr>tid = 0, due = 25000, cb = KeepAliveTick, every = Some 25000\<rparr>]"
    and ev: "events_written ?s = [EventLine ''ready'', DataLine (JObject [(''ok'', JBool True)]),
        EventLine ''todos_changed'', DataLine (JObject [(''at'', JNum 1250)])]"
    unfolding established_cookie
    by (simp_all add: activate_def open_stream_def op_defs res_status_def setHeader_def
        flushHeaders_def fresh_def Let_def
      cookie_request_def allowed_origin_def run_timers.simps next_due_def fire_def
        events_written_def on_time_def)
  have nd: "\<forall>tm\<in>set (timers ?s). cb tm = DebounceFire \<longrightarrow> 5000 < due tm"
    unfolding tms by simp
  have dl: "\<forall>e\<in>set ((5000, Deliver AssignedWatch Snapshot) # [(5100, Deliver OwnedWatch ListenError)]).
      is_delivery (snd e)"
    by simp
  have ww: "within_window 5000 (map fst [(5100 :: nat, Deliver OwnedWatch ListenError)])"
    by simp
  from debounce_coalescing [OF i st nd dl ww, where T = 6000 and clk = on_time]
  have "events_written (run_timers on_time 6000
     (exec on_time [(5000, Deliver AssignedWatch Snapshot), (5100, Deliver OwnedWatch ListenError)] ?s))
     = events_written ?s @ changed_frame (on_time 5350)"
    by simp
  with st ev show ?thesis
    by (simp add: changed_frame_def on_time_def)
qed

subsection \<open>C4: ready comes first\<close>

text \<open>
  C4. In every session that becomes active, the first two chunks written are the
  \<^verbatim>\<open>ready\<close> event, whatever follows: no \<^verbatim>\<open>todos_changed\<close> precedes it. This holds for
  every call of the handler that leaves the session active, and it holds even if
  deliveries reach the callbacks between the subscriptions and the activation (the events
  \<open>early\<close>), since \<^verbatim>\<open>started\<close> is still false then.
\<close>

theorem ready_first:
  "(started (todosStream auth now req fresh) \<longrightarrow>
      (\<exists>rest. map fst (writes (run_timers clk T (exec clk evs (todosStream auth now req fresh))))
         = EventLine ''ready'' # DataLine (JObject [(''ok'', JBool True)]) # rest)) \<and>
   (\<exists>rest. map fst (writes (run_timers clk T (exec clk evs
        (activate now (exec clk early (open_stream req uid fresh))))))
     = EventLine ''ready'' # DataLine (JObject [(''ok'', JBool True)]) # rest)"
proof -
  have general: "\<exists>rest. map fst (writes (run_timers clk T (exec clk evs
        (activate now (exec clk early (open_stream req uid fresh))))))
     = EventLine ''ready'' # DataLine (JObject [(''ok'', JBool True)]) # rest" for early uid
  proof -
    define p where "p = exec clk early (open_stream req uid fresh)"
    have "writes p = []"
      unfolding p_def using exec_quiet open_stream_quiet by metis
    then have a: "map fst (writes (activate now p)) =
        [EventLine ''ready'', DataLine (JObject [(''ok'', JBool True)])]"
      by (simp add: activate_writes)
    obtain w1 where "writes (exec clk evs (activate now p)) = writes (activate now p) @ w1"
      using exec_writes by blast
    moreover obtain w2 where "writes (run_timers clk T (exec clk evs (activate now p)))
        = writes (exec clk evs (activate now p)) @ w2"
      using run_timers_writes by blast
    ultimately show ?thesis
      using a by (simp add: p_def)
  qed
  have "\<exists>rest. map fst (writes (run_timers clk T (exec clk evs (todosStream auth now req fresh))))
         = EventLine ''ready'' # DataLine (JObject [(''ok'', JBool True)]) # rest"
    if "started (todosStream auth now req fresh)"
  proof -
    from that obtain u where
      "todosStream auth now req fresh = activate now (open_stream req u fresh)"
      using started_todosStream by blast
    with general [of "[]" u] show ?thesis by simp
  qed
  with general show ?thesis by blast
qed

theorem ready_first_witness:
  "started (todosStream accepting 0 cookie_request fresh) \<and>
   (\<exists>rest. map fst (writes (run_timers on_time 400
        (exec on_time [(100, Deliver OwnedWatch Snapshot)]
           (todosStream accepting 0 cookie_request fresh))))
     = EventLine ''ready'' # DataLine (JObject [(''ok'', JBool True)]) # rest)"
proof -
  have st: "started (todosStream accepting 0 cookie_request fresh)"
    by (simp add: established_cookie established_fields)
  with ready_first [where auth = accepting and now = 0 and req = cookie_request and T = 400
      and evs = "[(100, Deliver OwnedWatch Snapshot)]" and early = "[]" and uid = "[]"
      and clk = on_time]
  show ?thesis by blast
qed

subsection \<open>C5: no stream without a verified credential\<close>

text \<open>
  C5. If the request has neither a usable token parameter nor a usable session cookie,
  or if the verification the handler performs (of the token when there is one, of the
  cookie otherwise) rejects, the response is status 401 with a JSON body holding the
  single key \<^verbatim>\<open>error\<close>, and it is ended; the handler sets no header, flushes
  none, writes no chunk, opens no subscription and arms no timer.
\<close>

theorem auth_gating:
  assumes "(\<not> truthy (tokenParam req) \<and> \<not> truthy (session_cookie req))
         \<or> (\<exists>t e. tokenParam req = Some t \<and> t \<noteq> [] \<and> verifyIdToken auth t = Inl e)
         \<or> (\<exists>c e. \<not> truthy (tokenParam req) \<and> session_cookie req = Some c \<and> c \<noteq> []
               \<and> verifySessionCookie auth c = Inl e)"
  shows "status (todosStream auth now req res) = 401
       \<and> (\<exists>msg. json_body (todosStream auth now req res) = Some (JObject [(''error'', JString msg)]))
       \<and> ended (todosStream auth now req res)
       \<and> headers (todosStream auth now req res) = headers res
       \<and> headers_flushed (todosStream auth now req res) = headers_flushed res
       \<and> writes (todosStream auth now req res) = writes res
       \<and> subOwned (todosStream auth now req res) = subOwned res
       \<and> subAssigned (todosStream auth now req res) = subAssigned res
       \<and> timers (todosStream auth now req res) = timers res"
proof -
  from assms obtain msg where
    "todosStream auth now req res = res_json (JObject [(''error'', JString msg)]) (res_status 401 res)"
    using todosStream_missing todosStream_token_rejected todosStream_cookie_rejected
    by metis
  then show ?thesis
    using rejection_fields by (metis (no_types, lifting))
qed

theorem auth_gating_witness:
  "tokenParam token_request = Some ''abc'' \<and>
   verifyIdToken rejecting ''abc'' = Inl TokenExpired \<and>
   status (todosStream rejecting 0 token_request fresh) = 401 \<and>
   writes (todosStream rejecting 0 token_request fresh) = [] \<and>
   \<not> headers_flushed (todosStream rejecting 0 token_request fresh) \<and>
   headers (todosStream rejecting 0 token_request fresh) ''Content-Type'' = None \<and>
   \<not> truthy (tokenParam bare_request) \<and> \<not> truthy (session_cookie bare_request) \<and>
   status (todosStream accepting 0 bare_request fresh) = 401 \<and>
   writes (todosStream accepting 0 bare_request fresh) = []"
  using auth_gating [of token_request rejecting 0 fresh]
    auth_gating [of bare_request accepting 0 fresh]
  by (simp add: tokenParam_def truthy_def rejecting_def token_request_def bare_request_def
      fresh_def)

subsection \<open>C6: the two failure responses\<close>

text \<open>
  C6, as stated, fails: the response to a request without credential and the response
  to a rejected credential have different bodies.
\<close>

theorem failure_bodies_differ:
  "json_body (todosStream rejecting 0 bare_request fresh)
     = Some (JObject [(''error'', JString ''Missing session'')]) \<and>
   json_body (todosStream rejecting 0 token_request fresh)
     = Some (JObject [(''error'', JString ''Invalid or expired token'')]) \<and>
   json_body (todosStream rejecting 0 bare_request fresh)
     \<noteq> json_body (todosStream rejecting 0 token_request fresh)"
  by (simp add: todosStream_def tokenParam_def truthy_def as_string_def rejecting_def
      bare_request_def token_request_def res_json_def res_status_def)

text \<open>
  C6, amended. Both failures answer with status 401 and a JSON object with the single
  key \<^verbatim>\<open>error\<close>; the message is \<^verbatim>\<open>Missing session\<close> when no credential is supplied and
  \<^verbatim>\<open>Invalid or expired token\<close> when verification rejects. The second response is the same
  whatever the reason \<open>e\<close> of the rejection, and whether a token or a cookie was rejected.
\<close>

theorem failure_responses:
  "(\<not> truthy (tokenParam req) \<and> \<not> truthy (session_cookie req) \<longrightarrow>
      todosStream auth now req res =
        res_json (JObject [(''error'', JString ''Missing session'')]) (res_status 401 res)) \<and>
   ((tokenParam req = Some t \<and> t \<noteq> [] \<and> verifyIdToken auth t = Inl e) \<or>
    (\<not> truthy (tokenParam req) \<and> session_cookie req = Some c \<and> c \<noteq> [] \<and>
       verifySessionCookie auth c = Inl e) \<longrightarrow>
      todosStream auth now req res =
        res_json (JObject [(''error'', JString ''Invalid or expired token'')]) (res_status 401 res))"
  using todosStream_missing todosStream_token_rejected todosStream_cookie_rejected
  by blast

theorem failure_responses_witness:
  "todosStream rejecting 0 bare_request fresh =
     res_json (JObject [(''error'', JString ''Missing session'')]) (res_status 401 fresh) \<and>
   todosStream rejecting 0 token_request fresh =
     res_json (JObject [(''error'', JString ''Invalid or expired token'')]) (res_status 401 fresh) \<and>
   todosStream rejecting 0 cookie_request fresh =
     res_json (JObject [(''error'', JString ''Invalid or expired token'')]) (res_status 401 fresh)"
  using failure_responses [where req = bare_request and auth = rejecting and now = 0
        and res = fresh and t = "[]" and e = TokenExpired and c = "[]"]
    failure_responses [where req = token_request and auth = rejecting and now = 0
        and res = fresh and t = "''abc''" and e = TokenExpired and c = "[]"]
    failure_responses [where req = cookie_request and auth = rejecting and now = 0
        and res = fresh and t = "[]" and e = TokenRevoked and c = "''c1''"]
  by (simp add: tokenParam_def truthy_def rejecting_def bare_request_def token_request_def
      cookie_request_def)

subsection \<open>C7: teardown twice\<close>

text \<open>
  C7. Running the close listener a second time changes nothing: the state after two runs
  is the state after one, and so it is for a second close event. In that state the session is not active, the response is
  ended, both subscriptions are cancelled, and no armed timer has the handle held by
  \<^verbatim>\<open>debounce\<close> or by \<^verbatim>\<open>keepAlive\<close>. The second run calls \<^verbatim>\<open>clearTimeout\<close>,
  \<^verbatim>\<open>clearInterval\<close>, both unsubscribe functions and \<^verbatim>\<open>res.end\<close> again; each of them is
  without effect on what is already cleared, cancelled or ended, and none raises.
\<close>

theorem teardown_idempotent:
  "teardown (teardown s) = teardown s \<and>
   handle t' Close (handle t Close s) = handle t Close s \<and>
   \<not> started (teardown s) \<and> ended (teardown s) \<and>
   subOwned (teardown s) = Cancelled \<and> subAssigned (teardown s) = Cancelled \<and>
   (\<forall>tm\<in>set (timers (teardown s)). debounce s \<noteq> Some (tid tm) \<and> keepAlive s \<noteq> Some (tid tm))"
proof -
  have idem: "teardown (teardown s) = teardown s"
    by (cases "debounce s"; cases "keepAlive s"; simp add: op_defs Let_def conj_ac)
  have rest: "\<not> started (teardown s) \<and> ended (teardown s) \<and>
     subOwned (teardown s) = Cancelled \<and> subAssigned (teardown s) = Cancelled"
    by (cases "debounce s"; cases "keepAlive s"; simp add: op_defs Let_def)
  have tms: "\<forall>tm\<in>set (timers (teardown s)). debounce s \<noteq> Some (tid tm) \<and> keepAlive s \<noteq> Some (tid tm)"
    by (cases "debounce s"; cases "keepAlive s"; auto simp: op_defs Let_def)
  have ch: "close_handler (teardown s) = close_handler s"
    by (cases "debounce s"; cases "keepAlive s"; simp add: op_defs Let_def)
  have "handle t' Close (handle t Close s) = handle t Close s"
    using idem ch by simp
  with idem rest tms show ?thesis by blast
qed

text \<open>
  On a session with a pending emission: both timers are gone after the first teardown,
  and the second changes nothing.
\<close>

theorem teardown_idempotent_witness:
  "timers (onSnapshot_cb 100 (todosStream accepting 0 cookie_request fresh))
     = [\<lparr>tid = 0, due = 25000, cb = KeepAliveTick, every = Some 25000\<rparr>,
        \<lparr>tid = 1, due = 350, cb = DebounceFire, every = None\<rparr>] \<and>
   timers (teardown (onSnapshot_cb 100 (todosStream accepting 0 cookie_request fresh))) = [] \<and>
   teardown (teardown (onSnapshot_cb 100 (todosStream accepting 0 cookie_request fresh)))
     = teardown (onSnapshot_cb 100 (todosStream accepting 0 cookie_request fresh))"
proof -
  have "timers (onSnapshot_cb 100 (todosStream accepting 0 cookie_request fresh))
     = [\<lparr>tid = 0, due = 25000, cb = KeepAliveTick, every = Some 25000\<rparr>,
        \<lparr>tid = 1, due = 350, cb = DebounceFire, every = None\<rparr>]"
    and "timers (teardown (onSnapshot_cb 100 (todosStream accepting 0 cookie_request fresh))) = []"
    unfolding established_cookie
    by (simp_all add: activate_def open_stream_def op_defs res_status_def
        setHeader_def flushHeaders_def fresh_def Let_def
      cookie_request_def allowed_origin_def)
  then show ?thesis
    using teardown_idempotent [of "onSnapshot_cb 100 (todosStream accepting 0 cookie_request fresh)"]
    by simp
qed

subsection \<open>C8: a failed write\<close>

text \<open>
  C8, as stated, fails: \<^verbatim>\<open>send\<close> and \<^verbatim>\<open>sendComment\<close> do not look at the outcome of
  \<^verbatim>\<open>res.write\<close>. After the peer is gone, the keep-alive tick at 25000 makes a write that
  fails, and the session stays as it was: active, response not ended, subscription
  listening, interval armed again for 50000.
\<close>

theorem write_failure_no_teardown:
  "writes (run_timers on_time 25000 (exec on_time [(10, PeerGone)] (todosStream accepting 0 cookie_request fresh)))
     = [(EventLine ''ready'', True), (DataLine (JObject [(''ok'', JBool True)]), True),
        (CommentLine 25000, False)] \<and>
   started (run_timers on_time 25000 (exec on_time [(10, PeerGone)] (todosStream accepting 0 cookie_request fresh))) \<and>
   \<not> ended (run_timers on_time 25000 (exec on_time [(10, PeerGone)] (todosStream accepting 0 cookie_request fresh))) \<and>
   subOwned (run_timers on_time 25000 (exec on_time [(10, PeerGone)] (todosStream accepting 0 cookie_request fresh)))
     = Listening ''alice'' \<and>
   timers (run_timers on_time 25000 (exec on_time [(10, PeerGone)] (todosStream accepting 0 cookie_request fresh)))
     = [\<lparr>tid = 0, due = 50000, cb = KeepAliveTick, every = Some 25000\<rparr>]"
  unfolding established_cookie
  by (simp add: activate_def open_stream_def op_defs res_status_def
      setHeader_def flushHeaders_def fresh_def Let_def
      cookie_request_def allowed_origin_def run_timers.simps next_due_def fire_def on_time_def)

text \<open>
  C8, amended. A write that fails changes nothing in the session but the log of writes.
  Teardown is run by the close listener alone: in a session that became active, as long
  as no close event is handled, the session is still active, the response is not ended,
  both subscriptions are listening and the keep-alive interval is armed, however many
  writes have failed. When the close event is handled, it runs the teardown: the session
  is no longer active, the response is ended and both subscriptions are cancelled.
\<close>

theorem write_failure_ignored:
  assumes "started (todosStream auth now req fresh)"
    and "\<forall>e\<in>set evs. snd e \<noteq> Close"
  shows "(peer_gone s \<longrightarrow>
            send name data s = s\<lparr>writes := writes s @ [(EventLine name, False), (DataLine data, False)]\<rparr> \<and>
            sendComment t s = s\<lparr>writes := writes s @ [(CommentLine t, False)]\<rparr>) \<and>
         started (run_timers clk T (exec clk evs (todosStream auth now req fresh))) \<and>
         \<not> ended (run_timers clk T (exec clk evs (todosStream auth now req fresh))) \<and>
         listening (subOwned (run_timers clk T (exec clk evs (todosStream auth now req fresh)))) \<and>
         listening (subAssigned (run_timers clk T (exec clk evs (todosStream auth now req fresh)))) \<and>
         (\<exists>tm\<in>set (timers (run_timers clk T (exec clk evs (todosStream auth now req fresh)))).
             keepAlive (run_timers clk T (exec clk evs (todosStream auth now req fresh))) = Some (tid tm) \<and>
             cb tm = KeepAliveTick) \<and>
         handle t' Close (run_timers clk T (exec clk evs (todosStream auth now req fresh)))
           = teardown (run_timers clk T (exec clk evs (todosStream auth now req fresh))) \<and>
         \<not> started (teardown (run_timers clk T (exec clk evs (todosStream auth now req fresh)))) \<and>
         ended (teardown (run_timers clk T (exec clk evs (todosStream auth now req fresh)))) \<and>
         subOwned (teardown (run_timers clk T (exec clk evs (todosStream auth now req fresh)))) = Cancelled \<and>
         subAssigned (teardown (run_timers clk T (exec clk evs (todosStream auth now req fresh)))) = Cancelled"
proof -
  let ?s0 = "todosStream auth now req fresh"
  let ?S = "run_timers clk T (exec clk evs ?s0)"
  have i: "inv ?s0" by (rule inv_todosStream)
  from assms(1) have l: "live ?s0"
    using started_todosStream live_established by metis
  have le: "live (exec clk evs ?s0)" using i l assms(2) by (rule live_exec)
  have ie: "inv (exec clk evs ?s0)" using i by (rule inv_exec)
  have lS: "live ?S" using ie le by (rule live_run_timers)
  have iS: "inv ?S" using ie by (rule inv_run_timers)
  from lS iS have ch: "close_handler ?S" by (simp add: live_def inv_def)
  have w: "peer_gone s \<longrightarrow>
            send name data s = s\<lparr>writes := writes s @ [(EventLine name, False), (DataLine data, False)]\<rparr> \<and>
            sendComment t s = s\<lparr>writes := writes s @ [(CommentLine t, False)]\<rparr>"
    by (simp add: op_defs)
  have td: "\<not> started (teardown ?S)" "ended (teardown ?S)"
      "subOwned (teardown ?S) = Cancelled" "subAssigned (teardown ?S) = Cancelled"
    using teardown_fields [of ?S] by simp_all
  from ch have "handle t' Close ?S = teardown ?S" by simp
  with lS w td show ?thesis unfolding live_def by blast
qed

text \<open>
  After the peer is gone, a delivery and a minute of failed writes leave the session
  active; the close event then tears it down.
\<close>

theorem write_failure_ignored_witness:
  "started (todosStream accepting 0 cookie_request fresh) \<and>
   peer_gone (exec on_time [(10, PeerGone)] (todosStream accepting 0 cookie_request fresh)) \<and>
   started (run_timers on_time 60000 (exec on_time [(10, PeerGone), (20, Deliver OwnedWatch Snapshot)]
      (todosStream accepting 0 cookie_request fresh))) \<and>
   \<not> ended (run_timers on_time 60000 (exec on_time [(10, PeerGone), (20, Deliver OwnedWatch Snapshot)]
      (todosStream accepting 0 cookie_request fresh))) \<and>
   \<not> started (handle 60001 Close (run_timers on_time 60000
      (exec on_time [(10, PeerGone), (20, Deliver OwnedWatch Snapshot)]
         (todosStream accepting 0 cookie_request fresh))))"
proof -
  have st: "started (todosStream accepting 0 cookie_request fresh)"
    by (simp add: established_cookie established_fields)
  have pg: "peer_gone (exec on_time [(10, PeerGone)] (todosStream accepting 0 cookie_request fresh))"
    by simp
  have "\<forall>e\<in>set [(10, PeerGone), (20, Deliver OwnedWatch Snapshot)]. snd e \<noteq> Close"
    by simp
  from write_failure_ignored [OF st this, where s = fresh and name = "[]" and data = "JBool True"
      and t = 0 and T = 60000 and t' = 60001 and clk = on_time] st pg
  show ?thesis by simp
qed

subsection \<open>C9: the origin is echoed for the two known frontends only\<close>

text \<open>
  C9. For a request whose credential is verified, on a response that carries neither
  header beforehand: if the \<^verbatim>\<open>Origin\<close> header is one of the two allow-listed origins, the
  response has \<^verbatim>\<open>Access-Control-Allow-Origin\<close> set to exactly that origin, which is not
  the wildcard, and \<^verbatim>\<open>Vary: Origin\<close>; if the \<^verbatim>\<open>Origin\<close> header is absent or is any other
  value, the response has neither header.
\<close>

theorem origin_echo:
  assumes "(\<exists>t. tokenParam req = Some t \<and> t \<noteq> [] \<and> verifyIdToken auth t = Inr uid)
         \<or> (\<not> truthy (tokenParam req) \<and>
              (\<exists>c. session_cookie req = Some c \<and> c \<noteq> [] \<and> verifySessionCookie auth c = Inr uid))"
    and "headers res ''Access-Control-Allow-Origin'' = None"
    and "headers res ''Vary'' = None"
  shows "(allowed_origin (origin_header req) \<longrightarrow>
            headers (todosStream auth now req res) ''Access-Control-Allow-Origin'' = origin_header req \<and>
            headers (todosStream auth now req res) ''Vary'' = Some ''Origin'' \<and>
            origin_header req \<noteq> Some ''*'') \<and>
         (\<not> allowed_origin (origin_header req) \<longrightarrow>
            headers (todosStream auth now req res) ''Access-Control-Allow-Origin'' = None \<and>
            headers (todosStream auth now req res) ''Vary'' = None)"
proof -
  from assms(1) have "todosStream auth now req res = activate now (open_stream req uid res)"
    using todosStream_token_accepted todosStream_cookie_accepted by blast
  then have h: "headers (todosStream auth now req res) = headers (activate now (open_stream req uid res))"
    by simp
  show ?thesis
    unfolding h headers_established
    using assms(2,3) by (auto simp: allowed_origin_def as_string_def)
qed

theorem origin_echo_witness:
  "allowed_origin (origin_header token_request) \<and>
   headers (todosStream accepting 0 token_request fresh) ''Access-Control-Allow-Origin''
     = Some ''https://collab-todo-66eb2.web.app'' \<and>
   headers (todosStream accepting 0 token_request fresh) ''Vary'' = Some ''Origin'' \<and>
   \<not> allowed_origin (origin_header cookie_request) \<and>
   headers (todosStream accepting 0 cookie_request fresh) ''Access-Control-Allow-Origin'' = None \<and>
   headers (todosStream accepting 0 cookie_request fresh) ''Vary'' = None"
  using origin_echo [where req = token_request and auth = accepting and uid = "''alice''"
      and res = fresh and now = 0]
    origin_echo [where req = cookie_request and auth = accepting and uid = "''alice''"
      and res = fresh and now = 0]
  by (simp add: allowed_origin_def tokenParam_def truthy_def accepting_def token_request_def
      cookie_request_def fresh_def)

subsection \<open>C10: the token comes before the cookie\<close>

text \<open>
  C10, as stated, fails when the token parameter is present but empty, or is given more
  than once (Express then parses it to an array): \<^verbatim>\<open>tokenParam\<close> is falsy, so the handler
  verifies the session cookie instead. With a verifier that rejects every token and
  accepts the cookie, the requests \<^verbatim>\<open>?token=\<close> and \<^verbatim>\<open>?token=a&token=b\<close> with a valid
  cookie open the stream.
\<close>

theorem empty_token_falls_back_to_cookie:
  "query_token empty_token_request = Some (QString []) \<and>
   session_cookie empty_token_request = Some ''c1'' \<and>
   verifyIdToken cookie_only [] = Inl TokenMalformed \<and>
   status (todosStream cookie_only 0 empty_token_request fresh) = 200 \<and>
   started (todosStream cookie_only 0 empty_token_request fresh) \<and>
   json_body (todosStream cookie_only 0 empty_token_request fresh) = None \<and>
   map fst (writes (todosStream cookie_only 0 empty_token_request fresh))
     = [EventLine ''ready'', DataLine (JObject [(''ok'', JBool True)])] \<and>
   query_token repeated_token_request = Some QOther \<and>
   status (todosStream cookie_only 0 repeated_token_request fresh) = 200 \<and>
   started (todosStream cookie_only 0 repeated_token_request fresh)"
proof -
  have "todosStream cookie_only 0 empty_token_request fresh
      = activate 0 (open_stream empty_token_request ''alice'' fresh)"
    and "todosStream cookie_only 0 repeated_token_request fresh
      = activate 0 (open_stream repeated_token_request ''alice'' fresh)"
    by (simp_all add: todosStream_def cookie_only_def empty_token_request_def
        repeated_token_request_def tokenParam_def truthy_def as_string_def)
  then show ?thesis
    by (simp add: established_fields empty_token_request_def repeated_token_request_def
          cookie_only_def)
       (simp add: activate_def open_stream_def op_defs res_status_def setHeader_def
         flushHeaders_def fresh_def Let_def)
qed

text \<open>
  C10, amended. When the token parameter is a non-empty string, only the token is
  verified: the response is the same whatever the session cookie is and whatever its
  verification would answer, and if the token is rejected the response is the 401 error.
  When the token parameter is empty or is not a single string, it counts as absent and
  the session cookie is verified in its place.
\<close>

theorem token_precedence:
  "(tokenParam req = Some t \<and> t \<noteq> [] \<longrightarrow>
      todosStream (auth\<lparr>verifySessionCookie := v\<rparr>) now (req\<lparr>session_cookie := c\<rparr>) res
        = todosStream auth now req res \<and>
      (verifyIdToken auth t = Inl e \<longrightarrow>
         todosStream auth now req res =
           res_json (JObject [(''error'', JString ''Invalid or expired token'')])
             (res_status 401 res))) \<and>
   (\<not> truthy (tokenParam req) \<and> session_cookie req = Some k \<and> k \<noteq> [] \<longrightarrow>
      todosStream auth now req res =
        (case verifySessionCookie auth k of
           Inl thrown \<Rightarrow>
             res_json (JObject [(''error'', JString ''Invalid or expired token'')])
               (res_status 401 res)
         | Inr uid \<Rightarrow> activate now (open_stream req uid res)))"
proof -
  have a: "todosStream (auth\<lparr>verifySessionCookie := v\<rparr>) now (req\<lparr>session_cookie := c\<rparr>) res
        = todosStream auth now req res" if "tokenParam req = Some t" and "t \<noteq> []"
  proof -
    have tp: "tokenParam (req\<lparr>session_cookie := c\<rparr>) = Some t"
      using that(1) by (simp add: tokenParam_def)
    have os: "open_stream (req\<lparr>session_cookie := c\<rparr>) uid res = open_stream req uid res" for uid
      by (simp add: open_stream_def)
    show ?thesis
      using that tp os
      by (simp add: todosStream_def truthy_def as_string_def Let_def split: sum.splits)
  qed
  have b: "todosStream auth now req res =
           res_json (JObject [(''error'', JString ''Invalid or expired token'')])
             (res_status 401 res)"
    if "tokenParam req = Some t" and "t \<noteq> []" and "verifyIdToken auth t = Inl e"
    using that by (rule todosStream_token_rejected)
  have c: "todosStream auth now req res =
        (case verifySessionCookie auth k of
           Inl thrown \<Rightarrow>
             res_json (JObject [(''error'', JString ''Invalid or expired token'')])
               (res_status 401 res)
         | Inr uid \<Rightarrow> activate now (open_stream req uid res))"
    if "\<not> truthy (tokenParam req)" and "session_cookie req = Some k" and "k \<noteq> []"
    using that by (simp add: todosStream_def truthy_def as_string_def Let_def)
  from a b c show ?thesis by blast
qed

theorem token_precedence_witness:
  "tokenParam token_request = Some ''abc'' \<and>
   verifySessionCookie cookie_only ''c1'' = Inr ''alice'' \<and>
   todosStream cookie_only 0 token_request fresh =
     res_json (JObject [(''error'', JString ''Invalid or expired token'')]) (res_status 401 fresh) \<and>
   todosStream cookie_only 0 empty_token_request fresh =
     activate 0 (open_stream empty_token_request ''alice'' fresh)"
  using token_precedence [where req = token_request and t = "''abc''" and auth = cookie_only
      and e = TokenMalformed and now = 0 and res = fresh and k = "[]"
      and v = "verifySessionCookie cookie_only" and c = "session_cookie token_request"]
    token_precedence [where req = empty_token_request and t = "[]" and auth = cookie_only
      and e = TokenMalformed and now = 0 and res = fresh and k = "''c1''"
      and v = "verifySessionCookie cookie_only" and c = "session_cookie empty_token_request"]
  by (simp add: tokenParam_def truthy_def cookie_only_def token_request_def
      empty_token_request_def)

end
